theory Spec2Isabelle
  imports Main "HOL-Library.Product_Lexorder" "HOL-Library.Multiset"
begin

section \<open>Snapshot retention for a Nexus repository: the model\<close>

text \<open>
  A shallow embedding of \<^verbatim>\<open>clean_nexus_snapshots.py\<close>. A Python string is a list of
  Unicode code points. Which code points are decimal digits, and with which value, is a
  table of the interpreter's Unicode database: it is a parameter \<open>U\<close> of every function
  that matches \<^verbatim>\<open>\d\<close> or calls \<^verbatim>\<open>int()\<close>, and \<open>ascii_decimals\<close> says what every version of
  the table holds on the ASCII range. Python integers are \<^typ>\<open>int\<close>. Exceptions are values
  of \<open>py_error\<close>.
\<close>

subsection \<open>Characters and integers\<close>

type_synonym codepoint = nat

type_synonym ustring = "codepoint list"

type_synonym unicode = "codepoint \<Rightarrow> nat option"

definition ustr :: "string \<Rightarrow> ustring" where
  \<comment> \<open>a string literal of the source\<close>
  "ustr s = map of_char s"

definition ascii_decimals :: "unicode \<Rightarrow> bool" where
  \<comment> \<open>below 128 the decimal digits are \<^verbatim>\<open>0\<close>..\<^verbatim>\<open>9\<close>, with their values; a digit value is below 10\<close>
  "ascii_decimals U \<longleftrightarrow>
     (\<forall>c < 128. U c = (if 48 \<le> c \<and> c \<le> 57 then Some (c - 48) else None)) \<and>
     (\<forall>c d. U c = Some d \<longrightarrow> d < 10)"

definition in_range :: "char \<Rightarrow> char \<Rightarrow> codepoint \<Rightarrow> bool" where
  \<comment> \<open>the character class \<^verbatim>\<open>[lo-hi]\<close>\<close>
  "in_range lo hi c \<longleftrightarrow> of_char lo \<le> c \<and> c \<le> of_char hi"

definition is_digit :: "unicode \<Rightarrow> codepoint \<Rightarrow> bool" where
  \<comment> \<open>the character class \<^verbatim>\<open>\d\<close> of a \<^verbatim>\<open>str\<close> pattern: every Unicode decimal digit\<close>
  "is_digit U c \<longleftrightarrow> U c \<noteq> None"

definition newline :: codepoint where
  "newline = 10"

definition dash :: codepoint where
  "dash = of_char CHR ''-''"

definition period :: codepoint where
  "period = of_char CHR ''.''"

definition digit_val :: "unicode \<Rightarrow> codepoint \<Rightarrow> nat" where
  "digit_val U c = (case U c of Some d \<Rightarrow> d | None \<Rightarrow> 0)"

definition decimal :: "unicode \<Rightarrow> ustring \<Rightarrow> nat" where
  \<comment> \<open>the number a string of decimal digits spells, read from the left\<close>
  "decimal U s = foldl (\<lambda>a c. 10 * a + digit_val U c) 0 s"

subsection \<open>Exceptions\<close>

datatype cause = Transport string | HTTPError nat

datatype py_error =
    ValueError
  | OverflowError
  | AttributeError
  | NexusAPIError int cause

definition int_max_str_digits :: nat where
  \<comment> \<open>the interpreter's default limit on the digits of a string that \<^verbatim>\<open>int()\<close> converts\<close>
  "int_max_str_digits = 4300"

definition py_int :: "unicode \<Rightarrow> ustring \<Rightarrow> py_error + int" where
  \<comment> \<open>\<^verbatim>\<open>int(s)\<close> on a string of decimal digits\<close>
  "py_int U s =
     (if length s > int_max_str_digits then Inl ValueError else Inr (int (decimal U s)))"

subsection \<open>The pattern \<^verbatim>\<open>^(.*?)-(\d{8}\.\d{6})-(\d+)$\<close>\<close>

definition lit :: "codepoint \<Rightarrow> ustring \<Rightarrow> ustring option" where
  \<comment> \<open>one literal character\<close>
  "lit c s = (case s of [] \<Rightarrow> None | x # r \<Rightarrow> if x = c then Some r else None)"

definition digitsN :: "unicode \<Rightarrow> nat \<Rightarrow> ustring \<Rightarrow> (ustring \<times> ustring) option" where
  \<comment> \<open>\<^verbatim>\<open>\d{n}\<close>: the next n characters, all digits\<close>
  "digitsN U n s =
     (if n \<le> length s \<and> list_all (is_digit U) (take n s) then Some (take n s, drop n s)
      else None)"

definition digits1 :: "unicode \<Rightarrow> ustring \<Rightarrow> (ustring \<times> ustring) option" where
  \<comment> \<open>\<^verbatim>\<open>\d+\<close>, greedy. Giving back digits cannot help the \<^verbatim>\<open>$\<close> that follows: the next
      character would be a digit.\<close>
  "digits1 U s =
     (if takeWhile (is_digit U) s = [] then None
      else Some (takeWhile (is_digit U) s, dropWhile (is_digit U) s))"

definition at_end :: "ustring \<Rightarrow> bool" where
  \<comment> \<open>\<^verbatim>\<open>$\<close> without MULTILINE: the end of the string, or just before a newline that ends it\<close>
  "at_end s \<longleftrightarrow> s = [] \<or> s = [newline]"

definition match_tail :: "unicode \<Rightarrow> ustring \<Rightarrow> (ustring \<times> ustring) option" where
  \<comment> \<open>\<^verbatim>\<open>-(\d{8}\.\d{6})-(\d+)$\<close> at the start of s: groups 2 and 3\<close>
  "match_tail U s =
     Option.bind (lit dash s) (\<lambda>s1.
     Option.bind (digitsN U 8 s1) (\<lambda>(d, s2).
     Option.bind (lit period s2) (\<lambda>s3.
     Option.bind (digitsN U 6 s3) (\<lambda>(t, s4).
     Option.bind (lit dash s4) (\<lambda>s5.
     Option.bind (digits1 U s5) (\<lambda>(b, s6).
     if at_end s6 then Some (d @ period # t, b) else None))))))"

fun match_lazy :: "unicode \<Rightarrow> ustring \<Rightarrow> ustring \<Rightarrow> (ustring \<times> ustring \<times> ustring) option" where
  \<comment> \<open>\<^verbatim>\<open>(.*?)\<close>, lazy: try the rest of the pattern here; if it fails, take one more character
      (any but a newline, there is no DOTALL) into group 1 and try again\<close>
  "match_lazy U pre [] =
     (case match_tail U [] of Some (ts, bn) \<Rightarrow> Some (pre, ts, bn) | None \<Rightarrow> None)"
| "match_lazy U pre (c # cs) =
     (case match_tail U (c # cs) of
        Some (ts, bn) \<Rightarrow> Some (pre, ts, bn)
      | None \<Rightarrow> if c = newline then None else match_lazy U (pre @ [c]) cs)"

definition SNAPSHOT_PATTERN_match :: "unicode \<Rightarrow> ustring \<Rightarrow> (ustring \<times> ustring \<times> ustring) option" where
  \<comment> \<open>\<^verbatim>\<open>SNAPSHOT_PATTERN.match(version_str)\<close>: None, or groups 1, 2 and 3\<close>
  "SNAPSHOT_PATTERN_match U s = match_lazy U [] s"

subsection \<open>\<^verbatim>\<open>datetime.strptime(s, '%Y%m%d.%H%M%S')\<close>\<close>

text \<open>
  The library turns the format into a regular expression, one group of alternatives for
  each directive, matches it at the start of the string (backtracking, first match in the
  order of the alternatives), refuses unconverted data after the match, and builds the
  date and the datetime, which check their ranges. Every failure is a ValueError. In the
  alternatives \<^verbatim>\<open>\d\<close> is any Unicode decimal digit, a range such as \<^verbatim>\<open>[0-5]\<close> is ASCII.
\<close>

record datetime =
  year :: nat
  month :: nat
  day :: nat
  hour :: nat
  minute :: nat
  second :: nat

definition alt2 ::
  "unicode \<Rightarrow> (codepoint \<Rightarrow> bool) \<Rightarrow> (codepoint \<Rightarrow> bool) \<Rightarrow> ustring \<Rightarrow> (nat \<times> ustring) list"
where
  \<comment> \<open>an alternative of two characters, with the \<^verbatim>\<open>int()\<close> of the text it matched\<close>
  "alt2 U p q s =
     (case s of
        c1 # c2 # r \<Rightarrow> if p c1 \<and> q c2 then [(decimal U [c1, c2], r)] else []
      | _ \<Rightarrow> [])"

definition alt1 :: "unicode \<Rightarrow> (codepoint \<Rightarrow> bool) \<Rightarrow> ustring \<Rightarrow> (nat \<times> ustring) list" where
  \<comment> \<open>an alternative of one character\<close>
  "alt1 U p s = (case s of c # r \<Rightarrow> if p c then [(decimal U [c], r)] else [] | _ \<Rightarrow> [])"

definition dir_Y :: "unicode \<Rightarrow> ustring \<Rightarrow> (nat \<times> ustring) list" where
  \<comment> \<open>\<^verbatim>\<open>%Y\<close> is \<^verbatim>\<open>\d\d\d\d\<close>\<close>
  "dir_Y U s =
     (case s of
        a # b # c # d # r \<Rightarrow>
          if is_digit U a \<and> is_digit U b \<and> is_digit U c \<and> is_digit U d
          then [(decimal U [a, b, c, d], r)]
          else []
      | _ \<Rightarrow> [])"

definition dir_m :: "unicode \<Rightarrow> ustring \<Rightarrow> (nat \<times> ustring) list" where
  \<comment> \<open>\<^verbatim>\<open>%m\<close> is \<^verbatim>\<open>1[0-2]|0[1-9]|[1-9]\<close>\<close>
  "dir_m U s =
     alt2 U (in_range CHR ''1'' CHR ''1'') (in_range CHR ''0'' CHR ''2'') s
     @ alt2 U (in_range CHR ''0'' CHR ''0'') (in_range CHR ''1'' CHR ''9'') s
     @ alt1 U (in_range CHR ''1'' CHR ''9'') s"

definition dir_d :: "unicode \<Rightarrow> ustring \<Rightarrow> (nat \<times> ustring) list" where
  \<comment> \<open>\<^verbatim>\<open>%d\<close> is \<^verbatim>\<open>3[0-1]|[1-2]\d|0[1-9]|[1-9]| [1-9]\<close>\<close>
  "dir_d U s =
     alt2 U (in_range CHR ''3'' CHR ''3'') (in_range CHR ''0'' CHR ''1'') s
     @ alt2 U (in_range CHR ''1'' CHR ''2'') (is_digit U) s
     @ alt2 U (in_range CHR ''0'' CHR ''0'') (in_range CHR ''1'' CHR ''9'') s
     @ alt1 U (in_range CHR ''1'' CHR ''9'') s
     @ alt2 U (in_range CHR '' '' CHR '' '') (in_range CHR ''1'' CHR ''9'') s"

definition dir_H :: "unicode \<Rightarrow> ustring \<Rightarrow> (nat \<times> ustring) list" where
  \<comment> \<open>\<^verbatim>\<open>%H\<close> is \<^verbatim>\<open>2[0-3]|[0-1]\d|\d\<close>\<close>
  "dir_H U s =
     alt2 U (in_range CHR ''2'' CHR ''2'') (in_range CHR ''0'' CHR ''3'') s
     @ alt2 U (in_range CHR ''0'' CHR ''1'') (is_digit U) s
     @ alt1 U (is_digit U) s"

definition dir_M :: "unicode \<Rightarrow> ustring \<Rightarrow> (nat \<times> ustring) list" where
  \<comment> \<open>\<^verbatim>\<open>%M\<close> is \<^verbatim>\<open>[0-5]\d|\d\<close>\<close>
  "dir_M U s = alt2 U (in_range CHR ''0'' CHR ''5'') (is_digit U) s @ alt1 U (is_digit U) s"

definition dir_S :: "unicode \<Rightarrow> ustring \<Rightarrow> (nat \<times> ustring) list" where
  \<comment> \<open>\<^verbatim>\<open>%S\<close> is \<^verbatim>\<open>6[0-1]|[0-5]\d|\d\<close>\<close>
  "dir_S U s =
     alt2 U (in_range CHR ''6'' CHR ''6'') (in_range CHR ''0'' CHR ''1'') s
     @ alt2 U (in_range CHR ''0'' CHR ''5'') (is_digit U) s
     @ alt1 U (is_digit U) s"

definition dot :: "ustring \<Rightarrow> ustring list" where
  \<comment> \<open>the literal \<^verbatim>\<open>\.\<close> of the format\<close>
  "dot s = (case lit period s of None \<Rightarrow> [] | Some r \<Rightarrow> [r])"

definition format_matches :: "unicode \<Rightarrow> ustring \<Rightarrow> (datetime \<times> ustring) list" where
  \<comment> \<open>every way the format's expression matches a prefix of s, in backtracking order,
      each with the unconverted rest\<close>
  "format_matches U s =
     [(\<lparr>year = y, month = m, day = d, hour = h, minute = mi, second = sec\<rparr>, r7).
        (y, r1) \<leftarrow> dir_Y U s, (m, r2) \<leftarrow> dir_m U r1, (d, r3) \<leftarrow> dir_d U r2, r4 \<leftarrow> dot r3,
        (h, r5) \<leftarrow> dir_H U r4, (mi, r6) \<leftarrow> dir_M U r5, (sec, r7) \<leftarrow> dir_S U r6]"

definition is_leap :: "nat \<Rightarrow> bool" where
  "is_leap y \<longleftrightarrow> y mod 4 = 0 \<and> (y mod 100 \<noteq> 0 \<or> y mod 400 = 0)"

definition days_in_month :: "nat \<Rightarrow> nat \<Rightarrow> nat" where
  "days_in_month y m =
     (if m = 2 then (if is_leap y then 29 else 28)
      else if m = 4 \<or> m = 6 \<or> m = 9 \<or> m = 11 then 30 else 31)"

definition valid_datetime :: "datetime \<Rightarrow> bool" where
  \<comment> \<open>the range checks of \<^verbatim>\<open>date(year, month, day)\<close> and \<^verbatim>\<open>datetime(...)\<close>\<close>
  "valid_datetime t \<longleftrightarrow>
     1 \<le> year t \<and> year t \<le> 9999 \<and> 1 \<le> month t \<and> month t \<le> 12 \<and>
     1 \<le> day t \<and> day t \<le> days_in_month (year t) (month t) \<and>
     hour t \<le> 23 \<and> minute t \<le> 59 \<and> second t \<le> 59"

definition strptime :: "unicode \<Rightarrow> ustring \<Rightarrow> py_error + datetime" where
  "strptime U s =
     (case format_matches U s of
        [] \<Rightarrow> Inl ValueError
      | (t, rest) # _ \<Rightarrow>
          if rest \<noteq> [] then Inl ValueError
          else if valid_datetime t then Inr t
          else Inl ValueError)"

subsection \<open>\<^verbatim>\<open>parse_snapshot_version\<close>\<close>

definition SNAPSHOT :: ustring where
  "SNAPSHOT = ustr ''-SNAPSHOT''"

definition parse_snapshot_version ::
  "unicode \<Rightarrow> ustring \<Rightarrow> py_error + (ustring \<times> datetime \<times> int) option"
where
  \<comment> \<open>\<^verbatim>\<open>int(match.group(3))\<close> stands before the \<^verbatim>\<open>try\<close>: its error leaves the function.
      The \<^verbatim>\<open>ValueError\<close> of \<open>strptime\<close> is caught and gives \<^verbatim>\<open>None\<close>.\<close>
  "parse_snapshot_version U version_str =
     (case SNAPSHOT_PATTERN_match U version_str of
        Some (g1, g2, g3) \<Rightarrow>
          (case py_int U g3 of
             Inl e \<Rightarrow> Inl e
           | Inr build_number \<Rightarrow>
               (case strptime U g2 of
                  Inr dt_obj \<Rightarrow> Inr (Some (g1 @ SNAPSHOT, dt_obj, build_number))
                | Inl ValueError \<Rightarrow> Inr None
                | Inl e \<Rightarrow> Inl e))
      | None \<Rightarrow> Inr None)"

subsection \<open>Configuration, components and the remote repository\<close>

text \<open>
  The configuration is read once from the environment; \<open>retain_count\<close>, \<open>max_retries\<close>
  and \<open>retry_delay\<close> are whatever integers \<^verbatim>\<open>int()\<close> reads.
\<close>

record config =
  nexus_url :: ustring
  repository :: ustring
  retain_count :: int
  dry_run :: bool
  max_retries :: int
  retry_delay :: int

record component =
  comp_id :: ustring
  group :: ustring
  name :: ustring
  version :: ustring

datatype http_method = GET | DELETE

datatype request = Req (meth: http_method) (url: ustring) (params: "(ustring \<times> ustring) list")

datatype body =
    BadJson
  | Page (page_items: "component list") (page_token: "ustring option")

datatype response = Response (status_code: nat) (json: body)

datatype outcome =
    Responded response
  | Failed string

datatype log_line =
    Marking nat
  | Deleted ustring
  | DeleteFailed

datatype event = Request request | Sleep int | Log log_line

text \<open>
  A run leaves a trace: every request sent, every sleep, and the log lines that report
  deletion decisions and outcomes (the other log lines are left out). The remote
  repository answers a request as a function of the trace so far; \<open>Failed\<close> is a
  \<^verbatim>\<open>RequestException\<close> of the transport (connection error, timeout), \<open>BadJson\<close> a body on
  which \<^verbatim>\<open>response.json()\<close> raises \<^verbatim>\<open>JSONDecodeError\<close>.
\<close>

type_synonym trace = "event list"

type_synonym remote = "trace \<Rightarrow> request \<Rightarrow> outcome"

subsection \<open>\<^verbatim>\<open>make_api_request\<close>\<close>

definition raises_for_status :: "response \<Rightarrow> bool" where
  \<comment> \<open>\<^verbatim>\<open>response.raise_for_status()\<close> raises an \<^verbatim>\<open>HTTPError\<close> on 4xx and 5xx\<close>
  "raises_for_status r \<longleftrightarrow> 400 \<le> status_code r \<and> status_code r < 600"

definition sleep_max :: int where
  \<comment> \<open>the most seconds whose nanoseconds fit the 64-bit time of \<^verbatim>\<open>time.sleep\<close>\<close>
  "sleep_max = 9223372036"

definition time_sleep :: "int \<Rightarrow> py_error option" where
  \<comment> \<open>the error \<^verbatim>\<open>time.sleep(secs)\<close> raises instead of sleeping: \<^verbatim>\<open>ValueError\<close> for a negative
      length, \<^verbatim>\<open>OverflowError\<close> for one too large\<close>
  "time_sleep secs =
     (if secs < 0 then Some ValueError
      else if secs > sleep_max then Some OverflowError
      else None)"

fun request_attempts ::
  "config \<Rightarrow> remote \<Rightarrow> request \<Rightarrow> nat list \<Rightarrow> trace \<Rightarrow> (py_error + response option) \<times> trace"
where
  \<comment> \<open>the loop \<^verbatim>\<open>for attempt in range(max_retries)\<close>; when the range is used up the function
      ends without a \<^verbatim>\<open>return\<close>, which gives \<^verbatim>\<open>None\<close>. An error of \<^verbatim>\<open>time.sleep\<close> is raised
      inside the handler and leaves the function.\<close>
  "request_attempts cfg remote req [] tr = (Inr None, tr)"
| "request_attempts cfg remote req (attempt # rest) tr =
     (let tr1 = tr @ [Request req];
          except = (\<lambda>e.
            if int attempt < max_retries cfg - 1
            then (case time_sleep (retry_delay cfg) of
                    Some err \<Rightarrow> (Inl err, tr1)
                  | None \<Rightarrow>
                      request_attempts cfg remote req rest (tr1 @ [Sleep (retry_delay cfg)]))
            else (Inl (NexusAPIError (max_retries cfg) e), tr1))
      in case remote tr req of
           Responded response \<Rightarrow>
             if status_code response = 204 then (Inr (Some response), tr1)
             else if raises_for_status response then except (HTTPError (status_code response))
             else (Inr (Some response), tr1)
         | Failed msg \<Rightarrow> except (Transport msg))"

definition make_api_request ::
  "config \<Rightarrow> remote \<Rightarrow> request \<Rightarrow> trace \<Rightarrow> (py_error + response option) \<times> trace"
where
  "make_api_request cfg remote req tr =
     request_attempts cfg remote req [0 ..< nat (max_retries cfg)] tr"

subsection \<open>\<^verbatim>\<open>get_all_components_paginated\<close>\<close>

definition components_url :: "config \<Rightarrow> ustring" where
  "components_url cfg = nexus_url cfg @ ustr ''/service/rest/v1/components''"

definition truthy :: "ustring option \<Rightarrow> bool" where
  \<comment> \<open>\<^verbatim>\<open>if continuation_token\<close>: neither \<^verbatim>\<open>None\<close> nor the empty string\<close>
  "truthy t \<longleftrightarrow> t \<noteq> None \<and> t \<noteq> Some []"

definition page_params :: "config \<Rightarrow> ustring option \<Rightarrow> (ustring \<times> ustring) list" where
  "page_params cfg continuation_token =
     [(ustr ''repository'', repository cfg), (ustr ''version'', ustr ''*-SNAPSHOT'')]
     @ (if truthy continuation_token then [(ustr ''continuationToken'', the continuation_token)]
        else [])"

fun fetch_pages ::
  "nat \<Rightarrow> config \<Rightarrow> remote \<Rightarrow> ustring option \<Rightarrow> component list \<Rightarrow> trace
     \<Rightarrow> ((py_error + component list option) \<times> trace) option"
where
  \<comment> \<open>the loop \<^verbatim>\<open>while True\<close>, which a remote that always sends a token keeps running: the
      first argument bounds the pages fetched, and None says the bound was reached\<close>
  "fetch_pages 0 cfg remote continuation_token all_components tr = None"
| "fetch_pages (Suc n) cfg remote continuation_token all_components tr =
     (case make_api_request cfg remote
             (Req GET (components_url cfg) (page_params cfg continuation_token)) tr of
        (Inl (NexusAPIError k e), tr1) \<Rightarrow> Some (Inr None, tr1)
      | (Inl e, tr1) \<Rightarrow> Some (Inl e, tr1)
      | (Inr None, tr1) \<Rightarrow> Some (Inl AttributeError, tr1)
      | (Inr (Some response), tr1) \<Rightarrow>
          (case json response of
             BadJson \<Rightarrow> Some (Inr None, tr1)
           | Page items token \<Rightarrow>
               if \<not> truthy token then Some (Inr (Some (all_components @ items)), tr1)
               else fetch_pages n cfg remote token (all_components @ items) tr1))"

definition get_all_components_paginated ::
  "nat \<Rightarrow> config \<Rightarrow> remote \<Rightarrow> trace \<Rightarrow> ((py_error + component list option) \<times> trace) option"
where
  "get_all_components_paginated n cfg remote tr = fetch_pages n cfg remote None [] tr"

subsection \<open>\<^verbatim>\<open>delete_component\<close>\<close>

definition delete_url :: "config \<Rightarrow> component \<Rightarrow> ustring" where
  "delete_url cfg c = nexus_url cfg @ ustr ''/service/rest/v1/components/'' @ comp_id c"

definition delete_component ::
  "config \<Rightarrow> remote \<Rightarrow> component \<Rightarrow> trace \<Rightarrow> (py_error + bool) \<times> trace"
where
  "delete_component cfg remote c tr =
     (case make_api_request cfg remote (Req DELETE (delete_url cfg c) []) tr of
        (Inr (Some response), tr1) \<Rightarrow>
          if status_code response = 204 then (Inr True, tr1 @ [Log (Deleted (version c))])
          else (Inr False, tr1)
      | (Inr None, tr1) \<Rightarrow> (Inl AttributeError, tr1)
      | (Inl (NexusAPIError k e), tr1) \<Rightarrow> (Inr False, tr1 @ [Log DeleteFailed])
      | (Inl e, tr1) \<Rightarrow> (Inl e, tr1))"

subsection \<open>\<^verbatim>\<open>process_snapshots\<close>\<close>

record snapshot =
  component :: component
  datetime :: datetime
  build :: int

fun setdefault_append :: "('k \<times> 'v list) list \<Rightarrow> 'k \<Rightarrow> 'v \<Rightarrow> ('k \<times> 'v list) list" where
  \<comment> \<open>\<^verbatim>\<open>d.setdefault(k, []).append(v)\<close> on a dictionary in insertion order\<close>
  "setdefault_append [] k v = [(k, [v])]"
| "setdefault_append ((k', vs) # d) k v =
     (if k' = k then (k', vs @ [v]) # d else (k', vs) # setdefault_append d k v)"

definition group_artifacts :: "component list \<Rightarrow> ((ustring \<times> ustring) \<times> component list) list" where
  "group_artifacts components =
     foldl (\<lambda>artifacts c. setdefault_append artifacts (group c, name c) c) [] components"

fun group_versions ::
  "unicode \<Rightarrow> (ustring \<times> snapshot list) list \<Rightarrow> component list
     \<Rightarrow> py_error + (ustring \<times> snapshot list) list"
where
  \<comment> \<open>the loop \<^verbatim>\<open>for comp in comps\<close> that fills \<^verbatim>\<open>version_branches\<close>; an error of the parser
      leaves it\<close>
  "group_versions U version_branches [] = Inr version_branches"
| "group_versions U version_branches (c # comps) =
     (case parse_snapshot_version U (version c) of
        Inl e \<Rightarrow> Inl e
      | Inr None \<Rightarrow> group_versions U version_branches comps
      | Inr (Some (base_version, dt_obj, build_number)) \<Rightarrow>
          group_versions U
            (setdefault_append version_branches base_version
               \<lparr>component = c, datetime = dt_obj, build = build_number\<rparr>)
            comps)"

definition datetime_key :: "datetime \<Rightarrow> nat \<times> nat \<times> nat \<times> nat \<times> nat \<times> nat" where
  \<comment> \<open>datetimes compare field by field, the year first\<close>
  "datetime_key t = (year t, month t, day t, hour t, minute t, second t)"

definition sort_key_of :: "snapshot \<Rightarrow> (nat \<times> nat \<times> nat \<times> nat \<times> nat \<times> nat) \<times> int" where
  \<comment> \<open>\<^verbatim>\<open>lambda x: (x["datetime"], x["build"])\<close>; tuples compare lexicographically\<close>
  "sort_key_of x = (datetime_key (datetime x), build x)"

definition sort_reverse :: "snapshot list \<Rightarrow> snapshot list" where
  \<comment> \<open>\<^verbatim>\<open>snapshots.sort(key=..., reverse=True)\<close>: a stable sort, descending, that keeps the
      order of equal keys (the list is reversed, sorted ascending, and reversed again)\<close>
  "sort_reverse snapshots = rev (sort_key sort_key_of (rev snapshots))"

definition slice_from :: "int \<Rightarrow> 'a list \<Rightarrow> 'a list" where
  \<comment> \<open>\<^verbatim>\<open>xs[i:]\<close>; a negative i counts from the end\<close>
  "slice_from i xs = (if i < 0 then drop (nat (int (length xs) + i)) xs else drop (nat i) xs)"

fun delete_items ::
  "config \<Rightarrow> remote \<Rightarrow> snapshot list \<Rightarrow> bool \<Rightarrow> trace \<Rightarrow> (py_error + bool) \<times> trace"
where
  \<comment> \<open>the loop \<^verbatim>\<open>for item in to_delete\<close>, with the flag \<open>success\<close>\<close>
  "delete_items cfg remote [] success tr = (Inr success, tr)"
| "delete_items cfg remote (item # items) success tr =
     (if \<not> dry_run cfg then
        (case delete_component cfg remote (component item) tr of
           (Inl e, tr1) \<Rightarrow> (Inl e, tr1)
         | (Inr deleted, tr1) \<Rightarrow>
             delete_items cfg remote items (if \<not> deleted then False else success) tr1)
      else delete_items cfg remote items success tr)"

fun process_branches ::
  "config \<Rightarrow> remote \<Rightarrow> (ustring \<times> snapshot list) list \<Rightarrow> bool \<Rightarrow> trace
     \<Rightarrow> (py_error + bool) \<times> trace"
where
  \<comment> \<open>the loop \<^verbatim>\<open>for base_version, snapshots in version_branches.items()\<close>\<close>
  "process_branches cfg remote [] success tr = (Inr success, tr)"
| "process_branches cfg remote ((base_version, snapshots) # branches) success tr =
     (if int (length snapshots) > retain_count cfg then
        (let to_delete = slice_from (retain_count cfg) (sort_reverse snapshots);
             tr1 = tr @ [Log (Marking (length to_delete))]
         in case delete_items cfg remote to_delete success tr1 of
              (Inl e, tr2) \<Rightarrow> (Inl e, tr2)
            | (Inr success', tr2) \<Rightarrow> process_branches cfg remote branches success' tr2)
      else process_branches cfg remote branches success tr)"

fun process_artifacts ::
  "unicode \<Rightarrow> config \<Rightarrow> remote \<Rightarrow> ((ustring \<times> ustring) \<times> component list) list \<Rightarrow> bool \<Rightarrow> trace
     \<Rightarrow> (py_error + bool) \<times> trace"
where
  \<comment> \<open>the loop \<^verbatim>\<open>for (group, name), comps in artifacts.items()\<close>\<close>
  "process_artifacts U cfg remote [] success tr = (Inr success, tr)"
| "process_artifacts U cfg remote ((key, comps) # artifacts) success tr =
     (case group_versions U [] comps of
        Inl e \<Rightarrow> (Inl e, tr)
      | Inr version_branches \<Rightarrow>
          (case process_branches cfg remote version_branches success tr of
             (Inl e, tr1) \<Rightarrow> (Inl e, tr1)
           | (Inr success', tr1) \<Rightarrow> process_artifacts U cfg remote artifacts success' tr1))"

definition process_snapshots ::
  "unicode \<Rightarrow> config \<Rightarrow> remote \<Rightarrow> component list \<Rightarrow> trace \<Rightarrow> (py_error + bool) \<times> trace"
where
  "process_snapshots U cfg remote components tr =
     (if components = [] then (Inr True, tr)
      else process_artifacts U cfg remote (group_artifacts components) True tr)"

subsection \<open>\<^verbatim>\<open>cleanup_job\<close>\<close>

datatype run_status = never_run | success | partial_failure | failed

definition cleanup_job ::
  "unicode \<Rightarrow> nat \<Rightarrow> config \<Rightarrow> remote \<Rightarrow> trace \<Rightarrow> (run_status \<times> trace) option"
where
  \<comment> \<open>the value left in \<^verbatim>\<open>last_run_status\<close>, and the trace; \<^verbatim>\<open>except Exception\<close> turns every
      error into \<open>failed\<close>. The time of the run is not modelled.\<close>
  "cleanup_job U n cfg remote tr =
     (case get_all_components_paginated n cfg remote tr of
        None \<Rightarrow> None
      | Some (Inl e, tr1) \<Rightarrow> Some (failed, tr1)
      | Some (Inr None, tr1) \<Rightarrow> Some (failed, tr1)
      | Some (Inr (Some components), tr1) \<Rightarrow>
          (case process_snapshots U cfg remote components tr1 of
             (Inl e, tr2) \<Rightarrow> Some (failed, tr2)
           | (Inr True, tr2) \<Rightarrow> Some (success, tr2)
           | (Inr False, tr2) \<Rightarrow> Some (partial_failure, tr2)))"

subsection \<open>Vocabulary of the specification\<close>

definition digits_ex :: unicode where
  \<comment> \<open>a table with the ASCII digits and the fullwidth digits U+FF10 to U+FF19, the only
      digits of the examples\<close>
  "digits_ex c =
     (if 48 \<le> c \<and> c \<le> 57 then Some (c - 48)
      else if 65296 \<le> c \<and> c \<le> 65305 then Some (c - 65296)
      else None)"

fun number :: "unicode \<Rightarrow> ustring \<Rightarrow> nat" where
  \<comment> \<open>the value of a numeral in positional notation: each digit times its power of ten\<close>
  "number U [] = 0"
| "number U (c # cs) = (case U c of Some d \<Rightarrow> d | None \<Rightarrow> 0) * 10 ^ length cs + number U cs"

definition ascii_digits :: "ustring \<Rightarrow> bool" where
  \<comment> \<open>every character is one of \<^verbatim>\<open>0\<close>..\<^verbatim>\<open>9\<close>\<close>
  "ascii_digits s \<longleftrightarrow> list_all (in_range CHR ''0'' CHR ''9'') s"

definition stamp_shape :: "unicode \<Rightarrow> ustring \<Rightarrow> ustring \<Rightarrow> ustring \<Rightarrow> bool" where
  \<comment> \<open>an 8-digit date, a 6-digit time and a build number of one digit or more\<close>
  "stamp_shape U d t b \<longleftrightarrow>
     length d = 8 \<and> list_all (is_digit U) d \<and> length t = 6 \<and> list_all (is_digit U) t \<and>
     b \<noteq> [] \<and> list_all (is_digit U) b"

definition timestamped :: "unicode \<Rightarrow> ustring \<Rightarrow> ustring \<Rightarrow> ustring \<Rightarrow> ustring \<Rightarrow> ustring \<Rightarrow> bool" where
  \<comment> \<open>v is \<^verbatim>\<open><base>-<8-digit-date>.<6-digit-time>-<integer build>\<close>\<close>
  "timestamped U v base d t b \<longleftrightarrow>
     v = base @ dash # d @ period # t @ dash # b \<and> stamp_shape U d t b"

definition decode_timestamp :: "unicode \<Rightarrow> ustring \<Rightarrow> ustring \<Rightarrow> datetime" where
  \<comment> \<open>4-digit year, 2-digit month, 2-digit day, then hour, minute and second\<close>
  "decode_timestamp U d t =
     \<lparr>year = number U (take 4 d), month = number U (take 2 (drop 4 d)), day = number U (drop 6 d),
      hour = number U (take 2 t), minute = number U (take 2 (drop 2 t)),
      second = number U (drop 4 t)\<rparr>"

definition build_digits :: "unicode \<Rightarrow> ustring \<Rightarrow> nat" where
  \<comment> \<open>how many decimal digits end the string\<close>
  "build_digits U v = length (takeWhile (is_digit U) (rev v))"

definition two_m :: "codepoint \<Rightarrow> codepoint \<Rightarrow> bool" where
  \<comment> \<open>the two-character alternatives of \<^verbatim>\<open>%m\<close>\<close>
  "two_m c1 c2 \<longleftrightarrow>
     in_range CHR ''1'' CHR ''1'' c1 \<and> in_range CHR ''0'' CHR ''2'' c2 \<or>
     in_range CHR ''0'' CHR ''0'' c1 \<and> in_range CHR ''1'' CHR ''9'' c2"

definition two_d :: "unicode \<Rightarrow> codepoint \<Rightarrow> codepoint \<Rightarrow> bool" where
  \<comment> \<open>the two-digit alternatives of \<^verbatim>\<open>%d\<close>\<close>
  "two_d U c1 c2 \<longleftrightarrow>
     in_range CHR ''3'' CHR ''3'' c1 \<and> in_range CHR ''0'' CHR ''1'' c2 \<or>
     in_range CHR ''1'' CHR ''2'' c1 \<and> is_digit U c2 \<or>
     in_range CHR ''0'' CHR ''0'' c1 \<and> in_range CHR ''1'' CHR ''9'' c2"

definition two_H :: "unicode \<Rightarrow> codepoint \<Rightarrow> codepoint \<Rightarrow> bool" where
  \<comment> \<open>the two-character alternatives of \<^verbatim>\<open>%H\<close>\<close>
  "two_H U c1 c2 \<longleftrightarrow>
     in_range CHR ''2'' CHR ''2'' c1 \<and> in_range CHR ''0'' CHR ''3'' c2 \<or>
     in_range CHR ''0'' CHR ''1'' c1 \<and> is_digit U c2"

definition two_M :: "unicode \<Rightarrow> codepoint \<Rightarrow> codepoint \<Rightarrow> bool" where
  \<comment> \<open>the two-character alternative of \<^verbatim>\<open>%M\<close>\<close>
  "two_M U c1 c2 \<longleftrightarrow> in_range CHR ''0'' CHR ''5'' c1 \<and> is_digit U c2"

definition two_S :: "unicode \<Rightarrow> codepoint \<Rightarrow> codepoint \<Rightarrow> bool" where
  \<comment> \<open>the two-character alternatives of \<^verbatim>\<open>%S\<close>\<close>
  "two_S U c1 c2 \<longleftrightarrow>
     in_range CHR ''6'' CHR ''6'' c1 \<and> in_range CHR ''0'' CHR ''1'' c2 \<or>
     in_range CHR ''0'' CHR ''5'' c1 \<and> is_digit U c2"

definition accepts :: "unicode \<Rightarrow> ustring \<Rightarrow> ustring \<Rightarrow> bool" where
  \<comment> \<open>the format's expression reads month, day, hour, minute and second of an 8-digit
      date and a 6-digit time with two characters each: where an alternative names an
      ASCII range, the digit is an ASCII digit\<close>
  "accepts U d t \<longleftrightarrow>
     two_m (d ! 4) (d ! 5) \<and> two_d U (d ! 6) (d ! 7) \<and>
     two_H U (t ! 0) (t ! 1) \<and> two_M U (t ! 2) (t ! 3) \<and> two_S U (t ! 4) (t ! 5)"


definition attempt_trace :: "config \<Rightarrow> request \<Rightarrow> trace \<Rightarrow> nat \<Rightarrow> trace" where
  \<comment> \<open>the trace when attempt i (counted from 0) starts: i requests so far, a sleep after each\<close>
  "attempt_trace cfg req tr i = tr @ concat (replicate i [Request req, Sleep (retry_delay cfg)])"

definition attempt :: "config \<Rightarrow> remote \<Rightarrow> request \<Rightarrow> trace \<Rightarrow> nat \<Rightarrow> outcome" where
  \<comment> \<open>what the remote answers to attempt i\<close>
  "attempt cfg remote req tr i = remote (attempt_trace cfg req tr i) req"

definition delete_targets :: "trace \<Rightarrow> ustring list" where
  \<comment> \<open>the URLs of the DELETE requests of a trace, in order\<close>
  "delete_targets tr =
     concat (map (\<lambda>ev. case ev of Request r \<Rightarrow> if meth r = DELETE then [url r] else [] | _ \<Rightarrow> []) tr)"

definition deleted_count :: "trace \<Rightarrow> nat" where
  \<comment> \<open>how many times a trace logs a successful deletion\<close>
  "deleted_count tr = length (filter (\<lambda>ev. case ev of Log (Deleted v) \<Rightarrow> True | _ \<Rightarrow> False) tr)"

definition page_request :: "config \<Rightarrow> ustring option \<Rightarrow> request" where
  \<comment> \<open>the request for the page after the given continuation token\<close>
  "page_request cfg token = Req GET (components_url cfg) (page_params cfg token)"


fun page_state ::
  "nat \<Rightarrow> config \<Rightarrow> remote \<Rightarrow> trace \<Rightarrow> (ustring option \<times> component list \<times> trace) option"
where
  \<comment> \<open>the token, the components gathered and the trace when the loop of
      \<open>get_all_components_paginated\<close> starts iteration k (counted from 0), if it gets there:
      every page before was fetched and carried a token\<close>
  "page_state 0 cfg remote tr = Some (None, [], tr)"
| "page_state (Suc k) cfg remote tr =
     (case page_state k cfg remote tr of
        None \<Rightarrow> None
      | Some (token, gathered, tr1) \<Rightarrow>
          (case make_api_request cfg remote (page_request cfg token) tr1 of
             (Inr (Some response), tr2) \<Rightarrow>
               (case json response of
                  Page items token' \<Rightarrow>
                    if truthy token' then Some (token', gathered @ items, tr2) else None
                | BadJson \<Rightarrow> None)
           | _ \<Rightarrow> None))"

subsection \<open>Example inputs\<close>

definition cfg_ex :: config where
  "cfg_ex = \<lparr>nexus_url = ustr ''http://nexus:8081'', repository = ustr ''maven-snapshots'',
     retain_count = 2, dry_run = False, max_retries = 3, retry_delay = 5\<rparr>"

definition comp_ex :: "string \<Rightarrow> string \<Rightarrow> component" where
  "comp_ex i v = \<lparr>comp_id = ustr i, group = ustr ''app'', name = ustr ''lib'', version = ustr v\<rparr>"

definition not_found :: remote where
  \<comment> \<open>a repository that has none of the components: every request is answered 404\<close>
  "not_found tr req = Responded (Response 404 BadJson)"

definition flaky :: remote where
  \<comment> \<open>the first request times out, every later one is answered 204\<close>
  "flaky tr req = (if tr = [] then Failed ''timeout'' else Responded (Response 204 BadJson))"

definition one_page_then_down :: "component list \<Rightarrow> remote" where
  \<comment> \<open>answers the first request with a page and a token, then stops answering\<close>
  "one_page_then_down cs tr req =
     (if tr = [] then Responded (Response 200 (Page cs (Some (ustr ''t1'')))) else Failed ''down'')"

section \<open>Properties\<close>

subsection \<open>Digits\<close>

lemma ascii_digit:
  assumes "ascii_decimals U" "in_range CHR ''0'' CHR ''9'' c"
  shows "U c = Some (c - 48)" "is_digit U c" "digit_val U c = c - 48"
  using assms by (auto simp: ascii_decimals_def in_range_def is_digit_def digit_val_def)

lemma ascii_non_digit:
  assumes "ascii_decimals U"
  shows "\<not> is_digit U newline" "\<not> is_digit U dash" "\<not> is_digit U period" "\<not> is_digit U 32"
  using assms by (auto simp: ascii_decimals_def is_digit_def newline_def dash_def period_def)

lemma dash_not_newline: "dash \<noteq> newline"
  by (simp add: newline_def dash_def)

lemma decimal_foldl:
  "foldl (\<lambda>a c. 10 * a + digit_val U c) a s = a * 10 ^ length s + number U s"
  by (induction s arbitrary: a) (simp_all add: digit_val_def algebra_simps)

lemma decimal_number: "decimal U s = number U s"
  by (simp add: decimal_def decimal_foldl)

lemma len8: "length d = 8 \<Longrightarrow> \<exists>a1 a2 a3 a4 a5 a6 a7 a8. d = [a1,a2,a3,a4,a5,a6,a7,a8]"
  by (auto simp: length_Suc_conv eval_nat_numeral)

lemma len6: "length d = 6 \<Longrightarrow> \<exists>a1 a2 a3 a4 a5 a6. d = [a1,a2,a3,a4,a5,a6]"
  by (auto simp: length_Suc_conv eval_nat_numeral)

subsection \<open>The format of the timestamp\<close>

lemma dir_H_2:
  assumes "is_digit U c1"
  shows "dir_H U (c1 # c2 # r) =
    (if two_H U c1 c2 then [(decimal U [c1, c2], r)] else []) @ [(decimal U [c1], c2 # r)]"
  using assms by (auto simp: dir_H_def alt2_def alt1_def two_H_def in_range_def)

lemma dir_M_2:
  assumes "is_digit U c1"
  shows "dir_M U (c1 # c2 # r) =
    (if two_M U c1 c2 then [(decimal U [c1, c2], r)] else []) @ [(decimal U [c1], c2 # r)]"
  using assms by (auto simp: dir_M_def alt2_def alt1_def two_M_def in_range_def)

lemma dir_S_2:
  assumes "is_digit U c1"
  shows "dir_S U (c1 # c2 # r) =
    (if two_S U c1 c2 then [(decimal U [c1, c2], r)] else []) @ [(decimal U [c1], c2 # r)]"
  using assms by (auto simp: dir_S_def alt2_def alt1_def two_S_def in_range_def)

lemma dir_m_2:
  "dir_m U (c1 # c2 # r) =
    (if two_m c1 c2 then [(decimal U [c1, c2], r)] else [])
    @ (if in_range CHR ''1'' CHR ''9'' c1 then [(decimal U [c1], c2 # r)] else [])"
  by (auto simp: dir_m_def alt2_def alt1_def two_m_def in_range_def)

lemma dir_d_2:
  assumes "ascii_decimals U" "is_digit U c1"
  shows "dir_d U (c1 # c2 # r) =
    (if two_d U c1 c2 then [(decimal U [c1, c2], r)] else [])
    @ (if in_range CHR ''1'' CHR ''9'' c1 then [(decimal U [c1], c2 # r)] else [])"
proof -
  have "c1 \<noteq> 32"
    using ascii_non_digit(4) [OF assms(1)] assms(2) by auto
  then show ?thesis
    by (auto simp: dir_d_def alt2_def alt1_def two_d_def in_range_def)
qed

lemma dir_Y_4:
  assumes "is_digit U c1" "is_digit U c2" "is_digit U c3" "is_digit U c4"
  shows "dir_Y U (c1 # c2 # c3 # c4 # r) = [(decimal U [c1, c2, c3, c4], r)]"
  using assms by (simp add: dir_Y_def)

lemma dot_digit: "ascii_decimals U \<Longrightarrow> is_digit U c \<Longrightarrow> dot (c # r) = []"
  using ascii_non_digit(3) by (auto simp: dot_def lit_def)

lemma dot_period: "dot (period # r) = [r]"
  by (simp add: dot_def lit_def)

lemma days_in_month_le: "days_in_month y m \<le> 31"
  by (simp add: days_in_month_def)

lemma format_matches_digits:
  assumes "ascii_decimals U"
    "list_all (is_digit U) [a1,a2,a3,a4,a5,a6,a7,a8]" "list_all (is_digit U) [b1,b2,b3,b4,b5,b6]"
  shows "(case format_matches U ([a1,a2,a3,a4,a5,a6,a7,a8] @ period # [b1,b2,b3,b4,b5,b6]) of
            [] \<Rightarrow> None | (t, rest) # _ \<Rightarrow> if rest \<noteq> [] then None else Some t)
         = (if two_m a5 a6 \<and> two_d U a7 a8 \<and> two_H U b1 b2 \<and> two_M U b3 b4 \<and> two_S U b5 b6
            then Some \<lparr>year = decimal U [a1,a2,a3,a4], month = decimal U [a5,a6],
                       day = decimal U [a7,a8], hour = decimal U [b1,b2],
                       minute = decimal U [b3,b4], second = decimal U [b5,b6]\<rparr>
            else None)"
  using assms
  by (simp add: format_matches_def dir_Y_4 dir_m_2 dir_d_2 dir_H_2 dir_M_2 dir_S_2 dot_digit dot_period)

lemma strptime_digits:
  assumes "ascii_decimals U"
    "length d = 8" "list_all (is_digit U) d" "length t = 6" "list_all (is_digit U) t"
  shows "strptime U (d @ period # t) =
     (if accepts U d t \<and> valid_datetime (decode_timestamp U d t)
      then Inr (decode_timestamp U d t) else Inl ValueError)"
proof -
  obtain a1 a2 a3 a4 a5 a6 a7 a8 where d: "d = [a1,a2,a3,a4,a5,a6,a7,a8]"
    using len8 [OF assms(2)] by blast
  obtain b1 b2 b3 b4 b5 b6 where t: "t = [b1,b2,b3,b4,b5,b6]"
    using len6 [OF assms(4)] by blast
  have s: "strptime U s = (case (case format_matches U s of
            [] \<Rightarrow> None | (t, rest) # _ \<Rightarrow> if rest \<noteq> [] then None else Some t) of None \<Rightarrow> Inl ValueError
             | Some t \<Rightarrow> if valid_datetime t then Inr t else Inl ValueError)" for s
    by (simp add: strptime_def split: list.splits)
  have dec: "decode_timestamp U d t =
      \<lparr>year = decimal U [a1,a2,a3,a4], month = decimal U [a5,a6],
       day = decimal U [a7,a8], hour = decimal U [b1,b2],
       minute = decimal U [b3,b4], second = decimal U [b5,b6]\<rparr>"
    unfolding d t by (simp add: decode_timestamp_def decimal_number)
  have acc: "accepts U d t \<longleftrightarrow>
      two_m a5 a6 \<and> two_d U a7 a8 \<and> two_H U b1 b2 \<and> two_M U b3 b4 \<and> two_S U b5 b6"
    unfolding d t by (simp add: accepts_def)
  have fm: "(case format_matches U (d @ period # t) of
            [] \<Rightarrow> None | (t, rest) # _ \<Rightarrow> if rest \<noteq> [] then None else Some t)
      = (if accepts U d t then Some (decode_timestamp U d t) else None)"
    unfolding dec acc unfolding d t
    by (rule format_matches_digits [OF assms(1) assms(3) [unfolded d] assms(5) [unfolded t]])
  show ?thesis
    unfolding s fm by simp
qed

lemma ascii_accepts:
  assumes "ascii_decimals U" "length d = 8" "ascii_digits d" "length t = 6" "ascii_digits t"
    "valid_datetime (decode_timestamp U d t)"
  shows "accepts U d t"
proof -
  obtain a1 a2 a3 a4 a5 a6 a7 a8 where d: "d = [a1,a2,a3,a4,a5,a6,a7,a8]"
    using len8 [OF assms(2)] by blast
  obtain b1 b2 b3 b4 b5 b6 where t: "t = [b1,b2,b3,b4,b5,b6]"
    using len6 [OF assms(4)] by blast
  have v: "U c = Some (c - 48)" "48 \<le> c" "c \<le> 57" "is_digit U c"
    if "c \<in> set d \<union> set t" for c
  proof -
    from that assms(3,5) have r: "in_range CHR ''0'' CHR ''9'' c"
      by (auto simp: ascii_digits_def list_all_iff)
    then show "U c = Some (c - 48)" "is_digit U c"
      using ascii_digit [OF assms(1) r] by simp_all
    show "48 \<le> c" "c \<le> 57"
      using r by (simp_all add: in_range_def)
  qed
  note le = days_in_month_le [of "number U [a1,a2,a3,a4]" "number U [a5,a6]"]
  have m: "two_m a5 a6"
    using assms(6) v [of a5] v [of a6] unfolding d t
    by (auto simp: decode_timestamp_def valid_datetime_def two_m_def in_range_def)
  have dd: "two_d U a7 a8"
    using assms(6) v [of a7] v [of a8] le unfolding d t
    by (auto simp: decode_timestamp_def valid_datetime_def two_d_def in_range_def)
  have h: "two_H U b1 b2"
    using assms(6) v [of b1] v [of b2] unfolding d t
    by (auto simp: decode_timestamp_def valid_datetime_def two_H_def in_range_def)
  have mi: "two_M U b3 b4"
    using assms(6) v [of b3] v [of b4] unfolding d t
    by (auto simp: decode_timestamp_def valid_datetime_def two_M_def in_range_def)
  have s: "two_S U b5 b6"
    using assms(6) v [of b5] v [of b6] unfolding d t
    by (auto simp: decode_timestamp_def valid_datetime_def two_S_def in_range_def)
  show ?thesis
    unfolding d t using m dd h mi s by (simp add: accepts_def)
qed

subsection \<open>The pattern\<close>

lemma lit_Some: "lit c s = Some r \<longleftrightarrow> s = c # r"
  by (auto simp: lit_def split: list.splits)

lemma digitsN_Some:
  "digitsN U n s = Some (d, r) \<longleftrightarrow> s = d @ r \<and> length d = n \<and> list_all (is_digit U) d"
  by (auto simp: digitsN_def)

lemma digits1_Some:
  assumes "ascii_decimals U"
  shows "digits1 U s = Some (b, r) \<and> at_end r \<longleftrightarrow>
     b \<noteq> [] \<and> list_all (is_digit U) b \<and> s = b @ r \<and> (r = [] \<or> r = [newline])"
proof
  assume "digits1 U s = Some (b, r) \<and> at_end r"
  then have b: "b = takeWhile (is_digit U) s" "r = dropWhile (is_digit U) s" "b \<noteq> []" and r: "at_end r"
    by (auto simp: digits1_def split: if_splits)
  have "list_all (is_digit U) b"
    unfolding b list_all_iff by (auto dest: set_takeWhileD)
  moreover have "s = b @ r"
    unfolding b by simp
  ultimately show "b \<noteq> [] \<and> list_all (is_digit U) b \<and> s = b @ r \<and> (r = [] \<or> r = [newline])"
    using b(3) r by (simp add: at_end_def)
next
  assume a: "b \<noteq> [] \<and> list_all (is_digit U) b \<and> s = b @ r \<and> (r = [] \<or> r = [newline])"
  then have all: "\<And>x. x \<in> set b \<Longrightarrow> is_digit U x"
    by (simp add: list_all_iff)
  have "takeWhile (is_digit U) r = []" "dropWhile (is_digit U) r = r"
    using a ascii_non_digit(1) [OF assms] by auto
  then have "takeWhile (is_digit U) s = b" "dropWhile (is_digit U) s = r"
    using a all by (simp_all add: takeWhile_append2 dropWhile_append2)
  then show "digits1 U s = Some (b, r) \<and> at_end r"
    using a by (auto simp: digits1_def at_end_def)
qed

lemma match_tail_hit:
  assumes "ascii_decimals U" "stamp_shape U d t b" "e = [] \<or> e = [newline]"
  shows "match_tail U (dash # d @ period # t @ dash # b @ e) = Some (d @ period # t, b)"
proof -
  have 1: "digitsN U 8 (d @ r) = Some (d, r)" and 2: "digitsN U 6 (t @ r) = Some (t, r)" for r
    using assms(2) by (simp_all add: digitsN_Some stamp_shape_def)
  have 3: "digits1 U (b @ e) = Some (b, e)" "at_end e"
    using digits1_Some [OF assms(1), of "b @ e" b e] assms(2,3) by (auto simp: stamp_shape_def)
  show ?thesis
    by (simp add: match_tail_def lit_def 1 2 3)
qed

lemma match_tail_Some:
  assumes "ascii_decimals U"
  shows "match_tail U s = Some (g2, g3) \<longleftrightarrow>
     (\<exists>d t e. s = dash # d @ period # t @ dash # g3 @ e \<and> g2 = d @ period # t \<and>
        stamp_shape U d t g3 \<and> (e = [] \<or> e = [newline]))"
  (is "?l \<longleftrightarrow> ?r")
proof
  assume ?l
  then have "\<exists>s1 d s2 s3 t s4 s5 s6. lit dash s = Some s1 \<and> digitsN U 8 s1 = Some (d, s2) \<and>
        lit period s2 = Some s3 \<and> digitsN U 6 s3 = Some (t, s4) \<and> lit dash s4 = Some s5 \<and>
        (digits1 U s5 = Some (g3, s6) \<and> at_end s6) \<and> g2 = d @ period # t"
    by (auto simp: match_tail_def Option.bind_eq_Some_conv split: if_splits)
  then show ?r
    unfolding lit_Some digitsN_Some digits1_Some [OF assms] stamp_shape_def by auto
next
  assume ?r
  then show ?l
    using match_tail_hit [OF assms] by blast
qed

lemma match_tail_no_dash:
  assumes "ascii_decimals U" "match_tail U s = Some (g2, g3)"
  shows "dash \<notin> set (drop 17 s)" and "16 < length s" and "s ! 16 = dash"
proof -
  obtain d t e where s: "s = dash # d @ period # t @ dash # g3 @ e"
    and sh: "stamp_shape U d t g3" and e: "e = [] \<or> e = [newline]"
    using assms(2) unfolding match_tail_Some [OF assms(1)] by blast
  define A where "A = dash # d @ period # t"
  have s': "s = A @ dash # g3 @ e"
    using s by (simp add: A_def)
  have len: "length A = 16"
    using sh by (simp add: stamp_shape_def A_def)
  show "16 < length s"
    unfolding s' using len by simp
  show "s ! 16 = dash"
    unfolding s' using len by (metis nth_append_length)
  have "drop 17 s = g3 @ e"
    unfolding s' using len by simp
  moreover have "dash \<notin> set g3"
    using sh ascii_non_digit(2) [OF assms(1)] by (auto simp: stamp_shape_def list_all_iff)
  ultimately show "dash \<notin> set (drop 17 s)"
    using e dash_not_newline by auto
qed

lemma match_tail_unique:
  assumes "ascii_decimals U" "match_tail U w = Some x" "q \<noteq> []"
  shows "match_tail U (q @ w) = None"
proof (rule ccontr)
  assume "match_tail U (q @ w) \<noteq> None"
  then obtain g2 g3 where m: "match_tail U (q @ w) = Some (g2, g3)"
    by auto
  obtain h2 h3 where x: "match_tail U w = Some (h2, h3)"
    using assms(2) by (cases x) auto
  have i: "16 < length w" "w ! 16 = dash"
    using match_tail_no_dash(2,3) [OF assms(1) x] by auto
  define B where "B = q @ take 16 w"
  have "w = take 16 w @ dash # drop 17 w"
    using id_take_nth_drop [OF i(1)] i(2) by simp
  then have "q @ w = B @ dash # drop 17 w"
    by (simp add: B_def)
  moreover have "17 \<le> length B"
    using assms(3) i(1) by (cases q) (auto simp: B_def)
  ultimately have "drop 17 (q @ w) = drop 17 B @ dash # drop 17 w"
    by simp
  then have "dash \<in> set (drop 17 (q @ w))"
    by simp
  then show False
    using match_tail_no_dash(1) [OF assms(1) m] by simp
qed

lemma match_lazy_sound:
  "match_lazy U pre s = Some (g1, g2, g3) \<Longrightarrow>
     \<exists>p w. s = p @ w \<and> g1 = pre @ p \<and> newline \<notin> set p \<and> match_tail U w = Some (g2, g3)"
proof (induction s arbitrary: pre)
  case Nil
  then show ?case by (auto split: option.splits)
next
  case (Cons c cs)
  show ?case
  proof (cases "match_tail U (c # cs)")
    case (Some x)
    with Cons.prems show ?thesis
      by (intro exI [of _ "[]"] exI [of _ "c # cs"]) auto
  next
    case None
    with Cons.prems have c: "c \<noteq> newline" and r: "match_lazy U (pre @ [c]) cs = Some (g1, g2, g3)"
      by (auto split: if_splits)
    from Cons.IH [OF r] obtain p w where
      "cs = p @ w" "g1 = (pre @ [c]) @ p" "newline \<notin> set p" "match_tail U w = Some (g2, g3)"
      by blast
    with c show ?thesis
      by (intro exI [of _ "c # p"] exI [of _ w]) auto
  qed
qed

lemma match_lazy_complete:
  "ascii_decimals U \<Longrightarrow> newline \<notin> set p \<Longrightarrow> match_tail U w = Some (g2, g3) \<Longrightarrow>
     match_lazy U pre (p @ w) = Some (pre @ p, g2, g3)"
proof (induction p arbitrary: pre)
  case Nil
  then show ?case by (cases w) auto
next
  case (Cons c p)
  have "match_tail U ((c # p) @ w) = None"
    using match_tail_unique [OF Cons.prems(1,3)] by blast
  moreover have "match_lazy U (pre @ [c]) (p @ w) = Some ((pre @ [c]) @ p, g2, g3)"
    using Cons.IH Cons.prems by simp
  ultimately show ?case
    using Cons.prems(2) by auto
qed

lemma SNAPSHOT_PATTERN_match_Some:
  assumes "ascii_decimals U"
  shows "SNAPSHOT_PATTERN_match U s = Some (g1, g2, g3) \<longleftrightarrow>
     (\<exists>d t e. s = g1 @ dash # d @ period # t @ dash # g3 @ e \<and> g2 = d @ period # t \<and>
        newline \<notin> set g1 \<and> stamp_shape U d t g3 \<and> (e = [] \<or> e = [newline]))"
  (is "?l \<longleftrightarrow> ?r")
proof
  assume ?l
  from match_lazy_sound [OF this [unfolded SNAPSHOT_PATTERN_match_def]]
  show ?r unfolding match_tail_Some [OF assms] by auto
next
  assume ?r
  then obtain d t e where s: "s = g1 @ dash # d @ period # t @ dash # g3 @ e"
    and g: "g2 = d @ period # t" "newline \<notin> set g1" "stamp_shape U d t g3" "e = [] \<or> e = [newline]"
    by blast
  have "match_tail U (dash # d @ period # t @ dash # g3 @ e) = Some (g2, g3)"
    unfolding match_tail_Some [OF assms] using g by blast
  from match_lazy_complete [OF assms g(2) this, of "[]"]
  show ?l unfolding SNAPSHOT_PATTERN_match_def s by simp
qed

subsection \<open>The version parser\<close>

lemma build_digits_timestamped:
  assumes "ascii_decimals U" "stamp_shape U d t b"
  shows "build_digits U (base @ dash # d @ period # t @ dash # b) = length b"
proof -
  define w where "w = rev (base @ dash # d @ period # t)"
  have r: "rev (base @ dash # d @ period # t @ dash # b) = rev b @ dash # w"
    by (simp add: w_def)
  have "\<And>x. x \<in> set (rev b) \<Longrightarrow> is_digit U x"
    using assms(2) by (simp add: stamp_shape_def list_all_iff)
  then have "takeWhile (is_digit U) (rev b @ dash # w) = rev b @ takeWhile (is_digit U) (dash # w)"
    by (rule takeWhile_append2)
  then have "takeWhile (is_digit U) (rev (base @ dash # d @ period # t @ dash # b)) = rev b"
    unfolding r using ascii_non_digit(2) [OF assms(1)] by simp
  then show ?thesis
    by (simp add: build_digits_def)
qed

lemma parse_snapshot_version_cases:
  assumes "ascii_decimals U"
  shows "parse_snapshot_version U v =
     (case SNAPSHOT_PATTERN_match U v of
        None \<Rightarrow> Inr None
      | Some (g1, g2, g3) \<Rightarrow>
          if length g3 > int_max_str_digits then Inl ValueError
          else (case strptime U g2 of
                  Inr dt \<Rightarrow> Inr (Some (g1 @ SNAPSHOT, dt, int (number U g3)))
                | Inl e \<Rightarrow> Inr None))"
proof -
  have "strptime U s = Inl e \<Longrightarrow> e = ValueError" for s e
    by (auto simp: strptime_def split: list.splits if_splits)
  then show ?thesis
    by (auto simp: parse_snapshot_version_def py_int_def decimal_number
        split: option.splits sum.splits py_error.splits)
qed

lemma parse_snapshot_version_Some:
  assumes "ascii_decimals U"
  shows "parse_snapshot_version U v = Inr (Some r) \<longleftrightarrow>
     (\<exists>base d t b e. v = base @ dash # d @ period # t @ dash # b @ e \<and>
        (e = [] \<or> e = [newline]) \<and> newline \<notin> set base \<and> stamp_shape U d t b \<and>
        length b \<le> int_max_str_digits \<and>
        accepts U d t \<and> valid_datetime (decode_timestamp U d t) \<and>
        r = (base @ SNAPSHOT, decode_timestamp U d t, int (number U b)))"
  (is "?l \<longleftrightarrow> ?r")
proof
  assume ?l
  then obtain g1 g2 g3 dt where m: "SNAPSHOT_PATTERN_match U v = Some (g1, g2, g3)"
    and len: "length g3 \<le> int_max_str_digits"
    and st: "strptime U g2 = Inr dt" and r: "r = (g1 @ SNAPSHOT, dt, int (number U g3))"
    unfolding parse_snapshot_version_cases [OF assms]
    by (auto split: option.splits sum.splits if_splits)
  from m obtain d t e where v: "v = g1 @ dash # d @ period # t @ dash # g3 @ e"
    and g: "g2 = d @ period # t" "newline \<notin> set g1" "stamp_shape U d t g3" "e = [] \<or> e = [newline]"
    unfolding SNAPSHOT_PATTERN_match_Some [OF assms] by blast
  have "strptime U g2 =
     (if accepts U d t \<and> valid_datetime (decode_timestamp U d t)
      then Inr (decode_timestamp U d t) else Inl ValueError)"
    unfolding g(1) using g(3) by (intro strptime_digits [OF assms]) (simp_all add: stamp_shape_def)
  with st have "accepts U d t" "valid_datetime (decode_timestamp U d t)" "dt = decode_timestamp U d t"
    by (auto split: if_splits)
  with v g r len show ?r by blast
next
  assume ?r
  then obtain base d t b e where v: "v = base @ dash # d @ period # t @ dash # b @ e"
    and g: "e = [] \<or> e = [newline]" "newline \<notin> set base" "stamp_shape U d t b"
      "length b \<le> int_max_str_digits" "accepts U d t" "valid_datetime (decode_timestamp U d t)"
    and r: "r = (base @ SNAPSHOT, decode_timestamp U d t, int (number U b))"
    by blast
  have m: "SNAPSHOT_PATTERN_match U v = Some (base, d @ period # t, b)"
    unfolding SNAPSHOT_PATTERN_match_Some [OF assms] using v g by blast
  have "strptime U (d @ period # t) = Inr (decode_timestamp U d t)"
    using strptime_digits [OF assms, of d t] g(3,5,6) by (simp add: stamp_shape_def)
  then show ?l
    unfolding parse_snapshot_version_cases [OF assms] using g(4) by (simp add: m r)
qed

lemma parse_snapshot_version_error:
  assumes "ascii_decimals U"
  shows "parse_snapshot_version U v = Inl err \<longleftrightarrow>
     err = ValueError \<and>
     (\<exists>base d t b e. v = base @ dash # d @ period # t @ dash # b @ e \<and>
        (e = [] \<or> e = [newline]) \<and> newline \<notin> set base \<and> stamp_shape U d t b \<and>
        int_max_str_digits < length b)"
  (is "?l \<longleftrightarrow> ?r")
proof
  assume ?l
  then obtain g1 g2 g3 where m: "SNAPSHOT_PATTERN_match U v = Some (g1, g2, g3)"
    and len: "int_max_str_digits < length g3" and e: "err = ValueError"
    unfolding parse_snapshot_version_cases [OF assms]
    by (auto split: option.splits sum.splits if_splits)
  from m e len show ?r
    unfolding SNAPSHOT_PATTERN_match_Some [OF assms] by blast
next
  assume ?r
  then obtain base d t b e where v: "v = base @ dash # d @ period # t @ dash # b @ e"
    and g: "e = [] \<or> e = [newline]" "newline \<notin> set base" "stamp_shape U d t b"
      "int_max_str_digits < length b" and e: "err = ValueError"
    by blast
  have m: "SNAPSHOT_PATTERN_match U v = Some (base, d @ period # t, b)"
    unfolding SNAPSHOT_PATTERN_match_Some [OF assms] using v g by blast
  show ?l
    unfolding parse_snapshot_version_cases [OF assms] using g(4) e by (simp add: m)
qed

lemma timestamped_no_newline_end:
  assumes "ascii_decimals U" "timestamped U v base d t b"
  shows "v \<noteq> [] \<and> last v \<noteq> newline"
proof -
  have b: "b \<noteq> []" "is_digit U (last b)"
    using assms(2) by (auto simp: timestamped_def stamp_shape_def list_all_iff)
  have "last v = last b"
    using assms(2) b(1) by (simp add: timestamped_def)
  then show ?thesis
    using b ascii_non_digit(1) [OF assms(1)] assms(2) by (auto simp: timestamped_def)
qed

lemma ascii_decimals_ex: "ascii_decimals digits_ex"
  by (auto simp: ascii_decimals_def digits_ex_def split: if_splits)

lemma ustr_append: "ustr (a @ b) = ustr a @ ustr b"
  by (simp add: ustr_def)

text \<open>
  Claim C4, for version strings that hold no line feed and end in no more decimal digits
  than \<^verbatim>\<open>int()\<close> converts. If the string is
  \<^verbatim>\<open><base>-<8-digit-date>.<6-digit-time>-<integer build>\<close>, the digits of date and time are
  ASCII digits and they are a valid calendar date and time, \<open>parse_snapshot_version\<close>
  returns the base with \<^verbatim>\<open>-SNAPSHOT\<close> appended, the decoded timestamp and the value of the
  build number. If the string has no reading of that form with a valid date and time,
  whatever decimal digits it is written in, the result is None. The result is never an
  error. A result that is not None is the base, timestamp and build number of a reading
  of the string.
\<close>

theorem parse_snapshot_version_spec:
  assumes "ascii_decimals U" "newline \<notin> set v" "build_digits U v \<le> int_max_str_digits"
  shows "(timestamped U v base d t b \<and> ascii_digits d \<and> ascii_digits t \<and>
          valid_datetime (decode_timestamp U d t) \<longrightarrow>
            parse_snapshot_version U v
              = Inr (Some (base @ ustr ''-SNAPSHOT'', decode_timestamp U d t, int (number U b))))
       \<and> ((\<forall>base d t b. \<not> (timestamped U v base d t b \<and> valid_datetime (decode_timestamp U d t))) \<longrightarrow>
            parse_snapshot_version U v = Inr None)
       \<and> (\<exists>r. parse_snapshot_version U v = Inr r)
       \<and> (\<forall>r. parse_snapshot_version U v = Inr (Some r) \<longrightarrow>
            (\<exists>base d t b. timestamped U v base d t b \<and> valid_datetime (decode_timestamp U d t) \<and>
               r = (base @ ustr ''-SNAPSHOT'', decode_timestamp U d t, int (number U b))))"
proof -
  have no_error: "\<exists>r. parse_snapshot_version U v = Inr r"
  proof (cases "parse_snapshot_version U v")
    case (Inl err)
    then obtain base d t b e where v: "v = base @ dash # d @ period # t @ dash # b @ e"
      and g: "e = [] \<or> e = [newline]" "stamp_shape U d t b" "int_max_str_digits < length b"
      unfolding parse_snapshot_version_error [OF assms(1)] by blast
    have "e = []"
      using g(1) assms(2) v by auto
    then have "build_digits U v = length b"
      unfolding v using build_digits_timestamped [OF assms(1) g(2)] by simp
    then show ?thesis
      using assms(3) g(3) by simp
  next
    case (Inr r)
    then show ?thesis by blast
  qed
  have sound: "\<exists>base d t b. timestamped U v base d t b \<and> valid_datetime (decode_timestamp U d t) \<and>
               r = (base @ ustr ''-SNAPSHOT'', decode_timestamp U d t, int (number U b))"
    if "parse_snapshot_version U v = Inr (Some r)" for r
  proof -
    from that obtain base d t b e where v: "v = base @ dash # d @ period # t @ dash # b @ e"
      and g: "e = [] \<or> e = [newline]" "stamp_shape U d t b" "valid_datetime (decode_timestamp U d t)"
        "r = (base @ SNAPSHOT, decode_timestamp U d t, int (number U b))"
      unfolding parse_snapshot_version_Some [OF assms(1)] by blast
    have "e = []"
      using g(1) assms(2) v by auto
    then have "timestamped U v base d t b"
      using v g(2) by (simp add: timestamped_def)
    then show ?thesis
      using g(3,4) unfolding SNAPSHOT_def by blast
  qed
  have complete: "parse_snapshot_version U v
      = Inr (Some (base @ ustr ''-SNAPSHOT'', decode_timestamp U d t, int (number U b)))"
    if a: "timestamped U v base d t b \<and> ascii_digits d \<and> ascii_digits t \<and>
          valid_datetime (decode_timestamp U d t)"
  proof -
    have v: "v = base @ dash # d @ period # t @ dash # b" and sh: "stamp_shape U d t b"
      using a by (simp_all add: timestamped_def)
    have nl: "newline \<notin> set base"
      using assms(2) v by auto
    have len: "length b \<le> int_max_str_digits"
      using assms(3) build_digits_timestamped [OF assms(1) sh, of base] unfolding v by simp
    have acc: "accepts U d t"
      using a sh by (intro ascii_accepts [OF assms(1)]) (simp_all add: stamp_shape_def)
    show ?thesis
      unfolding parse_snapshot_version_Some [OF assms(1)]
      using v sh nl len acc a
      by (intro exI [of _ base] exI [of _ d] exI [of _ t] exI [of _ b] exI [of _ "[]"])
         (simp add: SNAPSHOT_def)
  qed
  have none: "parse_snapshot_version U v = Inr None"
    if n: "\<forall>base d t b. \<not> (timestamped U v base d t b \<and> valid_datetime (decode_timestamp U d t))"
  proof -
    obtain r where r: "parse_snapshot_version U v = Inr r"
      using no_error by blast
    show ?thesis
    proof (cases r)
      case None
      with r show ?thesis by simp
    next
      case (Some x)
      with r sound [of x] n show ?thesis by blast
    qed
  qed
  show ?thesis
    using complete none no_error sound by blast
qed

lemma ex_stamp: "stamp_shape digits_ex (ustr ''20240115'') (ustr ''083045'') (ustr ''7'')"
  by (simp add: stamp_shape_def is_digit_def digits_ex_def ustr_def)

lemma ex_ascii: "ascii_digits (ustr ''20240115'')" "ascii_digits (ustr ''083045'')"
  by (simp_all add: ascii_digits_def in_range_def ustr_def)

lemma ex_decode:
  "decode_timestamp digits_ex (ustr ''20240115'') (ustr ''083045'') =
     \<lparr>year = 2024, month = 1, day = 15, hour = 8, minute = 30, second = 45\<rparr>"
  by (simp add: decode_timestamp_def digits_ex_def ustr_def)

lemma ex_valid: "valid_datetime (decode_timestamp digits_ex (ustr ''20240115'') (ustr ''083045''))"
  unfolding ex_decode by (simp add: valid_datetime_def days_in_month_def)

lemma ex_build: "number digits_ex (ustr ''7'') = 7"
  by (simp add: digits_ex_def ustr_def)

lemma ex_timestamped:
  "timestamped digits_ex (ustr ''1.2.0-20240115.083045-7'') (ustr ''1.2.0'')
     (ustr ''20240115'') (ustr ''083045'') (ustr ''7'')"
  using ex_stamp by (simp add: timestamped_def) (simp add: ustr_def dash_def period_def)

text \<open>
  Claim C4 on the digits of the example table: \<^verbatim>\<open>1.2.0-20240115.083045-7\<close> parses and
  \<^verbatim>\<open>1.0-SNAPSHOT\<close> does not.
\<close>

theorem parse_snapshot_version_spec_witness:
  "ascii_decimals digits_ex
   \<and> newline \<notin> set (ustr ''1.2.0-20240115.083045-7'')
   \<and> build_digits digits_ex (ustr ''1.2.0-20240115.083045-7'') \<le> int_max_str_digits
   \<and> timestamped digits_ex (ustr ''1.2.0-20240115.083045-7'') (ustr ''1.2.0'')
       (ustr ''20240115'') (ustr ''083045'') (ustr ''7'')
   \<and> ascii_digits (ustr ''20240115'') \<and> ascii_digits (ustr ''083045'')
   \<and> valid_datetime (decode_timestamp digits_ex (ustr ''20240115'') (ustr ''083045''))
   \<and> parse_snapshot_version digits_ex (ustr ''1.2.0-20240115.083045-7'') =
       Inr (Some (ustr ''1.2.0-SNAPSHOT'',
                  \<lparr>year = 2024, month = 1, day = 15, hour = 8, minute = 30, second = 45\<rparr>, 7))
   \<and> newline \<notin> set (ustr ''1.0-SNAPSHOT'')
   \<and> build_digits digits_ex (ustr ''1.0-SNAPSHOT'') \<le> int_max_str_digits
   \<and> parse_snapshot_version digits_ex (ustr ''1.0-SNAPSHOT'') = Inr None"
proof -
  have n1: "newline \<notin> set (ustr ''1.2.0-20240115.083045-7'')"
    and n2: "newline \<notin> set (ustr ''1.0-SNAPSHOT'')"
    by (simp_all add: newline_def ustr_def)
  have b1: "build_digits digits_ex (ustr ''1.2.0-20240115.083045-7'') \<le> int_max_str_digits"
    and b2: "build_digits digits_ex (ustr ''1.0-SNAPSHOT'') \<le> int_max_str_digits"
    by (simp_all add: build_digits_def ustr_def is_digit_def digits_ex_def int_max_str_digits_def)
  have t2: "\<not> timestamped digits_ex (ustr ''1.0-SNAPSHOT'') base d t b" for base d t b
  proof
    assume a: "timestamped digits_ex (ustr ''1.0-SNAPSHOT'') base d t b"
    then have "b \<noteq> []" "is_digit digits_ex (last b)" "last (ustr ''1.0-SNAPSHOT'') = last b"
      by (auto simp: timestamped_def stamp_shape_def list_all_iff)
    then have "is_digit digits_ex (last (ustr ''1.0-SNAPSHOT''))"
      by simp
    then show False
      by (simp add: is_digit_def digits_ex_def ustr_def)
  qed
  have p1: "parse_snapshot_version digits_ex (ustr ''1.2.0-20240115.083045-7'') =
       Inr (Some (ustr ''1.2.0-SNAPSHOT'',
                  \<lparr>year = 2024, month = 1, day = 15, hour = 8, minute = 30, second = 45\<rparr>, 7))"
    using parse_snapshot_version_spec [OF ascii_decimals_ex n1 b1,
        of "ustr ''1.2.0''" "ustr ''20240115''" "ustr ''083045''" "ustr ''7''"]
      ex_timestamped ex_ascii ex_valid
    by (simp add: ex_decode ex_build ustr_append [symmetric])
  have p2: "parse_snapshot_version digits_ex (ustr ''1.0-SNAPSHOT'') = Inr None"
    using parse_snapshot_version_spec [OF ascii_decimals_ex n2 b2] t2 by blast
  show ?thesis
    using ascii_decimals_ex n1 b1 ex_timestamped ex_ascii ex_valid p1 n2 b2 p2 by blast
qed

text \<open>
  Claim C4 as stated fails on a string that ends in a line feed: \<^verbatim>\<open>$\<close> matches before
  it, so the string parses although its last field is not an integer.
\<close>

theorem parse_snapshot_version_trailing_newline:
  "parse_snapshot_version digits_ex (ustr ''1.0-20240115.083045-7'' @ [newline]) =
     Inr (Some (ustr ''1.0-SNAPSHOT'',
                \<lparr>year = 2024, month = 1, day = 15, hour = 8, minute = 30, second = 45\<rparr>, 7))
   \<and> \<not> (\<exists>base d t b. timestamped digits_ex (ustr ''1.0-20240115.083045-7'' @ [newline]) base d t b)"
proof -
  have acc: "accepts digits_ex (ustr ''20240115'') (ustr ''083045'')"
    using ex_stamp ex_ascii ex_valid
    by (intro ascii_accepts [OF ascii_decimals_ex]) (simp_all add: stamp_shape_def)
  have "parse_snapshot_version digits_ex (ustr ''1.0-20240115.083045-7'' @ [newline]) =
     Inr (Some (ustr ''1.0'' @ SNAPSHOT, decode_timestamp digits_ex (ustr ''20240115'') (ustr ''083045''),
                int (number digits_ex (ustr ''7''))))"
    unfolding parse_snapshot_version_Some [OF ascii_decimals_ex]
    using ex_stamp ex_valid acc
    by (intro exI [of _ "ustr ''1.0''"] exI [of _ "ustr ''20240115''"] exI [of _ "ustr ''083045''"]
        exI [of _ "ustr ''7''"] exI [of _ "[newline]"])
       (simp add: int_max_str_digits_def, simp add: ustr_def dash_def period_def newline_def)
  moreover have "\<not> timestamped digits_ex (ustr ''1.0-20240115.083045-7'' @ [newline]) base d t b"
    for base d t b
    using timestamped_no_newline_end [OF ascii_decimals_ex,
        of "ustr ''1.0-20240115.083045-7'' @ [newline]" base d t b]
    by auto
  ultimately show ?thesis
    by (simp add: ex_decode ex_build SNAPSHOT_def ustr_append [symmetric])
qed

text \<open>
  Claim C10, amended: a version with an empty base,
  \<^verbatim>\<open>-<8-digit-date>.<6-digit-time>-<integer>\<close>, whose date and time are written in ASCII digits
  and are a valid date and time, and whose build number has no more digits than
  \<^verbatim>\<open>int()\<close> converts, parses: the base version is exactly \<^verbatim>\<open>-SNAPSHOT\<close>, the timestamp is the
  decoded one and the build number is the value of the numeral.
\<close>

theorem parse_snapshot_version_empty_base:
  assumes "ascii_decimals U" "stamp_shape U d t b" "ascii_digits d" "ascii_digits t"
    "valid_datetime (decode_timestamp U d t)" "length b \<le> int_max_str_digits"
  shows "parse_snapshot_version U (dash # d @ period # t @ dash # b) =
           Inr (Some (ustr ''-SNAPSHOT'', decode_timestamp U d t, int (number U b)))"
proof -
  have acc: "accepts U d t"
    using assms(2-5) by (intro ascii_accepts [OF assms(1)]) (simp_all add: stamp_shape_def)
  show ?thesis
    unfolding parse_snapshot_version_Some [OF assms(1)]
    using assms acc
    by (intro exI [of _ "[]"] exI [of _ d] exI [of _ t] exI [of _ b] exI [of _ "[]"])
       (simp add: SNAPSHOT_def)
qed

text \<open>Claim C10, amended, at \<^verbatim>\<open>-20240115.083045-7\<close>.\<close>

theorem parse_snapshot_version_empty_base_witness:
  "ascii_decimals digits_ex
   \<and> stamp_shape digits_ex (ustr ''20240115'') (ustr ''083045'') (ustr ''7'')
   \<and> ascii_digits (ustr ''20240115'') \<and> ascii_digits (ustr ''083045'')
   \<and> valid_datetime (decode_timestamp digits_ex (ustr ''20240115'') (ustr ''083045''))
   \<and> length (ustr ''7'') \<le> int_max_str_digits
   \<and> parse_snapshot_version digits_ex (ustr ''-20240115.083045-7'') =
       Inr (Some (ustr ''-SNAPSHOT'',
                  \<lparr>year = 2024, month = 1, day = 15, hour = 8, minute = 30, second = 45\<rparr>, 7))"
proof -
  have l: "length (ustr ''7'') \<le> int_max_str_digits"
    by (simp add: ustr_def int_max_str_digits_def)
  have s: "ustr ''-20240115.083045-7'' = dash # ustr ''20240115'' @ period # ustr ''083045'' @ dash # ustr ''7''"
    by (simp add: ustr_def dash_def period_def)
  show ?thesis
    using parse_snapshot_version_empty_base [OF ascii_decimals_ex ex_stamp ex_ascii ex_valid l]
      ascii_decimals_ex ex_stamp ex_ascii ex_valid l
    unfolding s by (simp add: ex_decode ex_build)
qed

text \<open>
  Claim C10 as stated fails twice. A build number of 4301 digits makes \<^verbatim>\<open>int()\<close>, which
  stands before the \<^verbatim>\<open>try\<close>, raise \<^verbatim>\<open>ValueError\<close>. And a date whose month is written with
  the fullwidth digit zero (U+FF10) matches the pattern, since \<^verbatim>\<open>\d\<close> accepts it, and
  spells January, but \<open>strptime\<close> wants an ASCII digit there and the result is None.
\<close>

theorem parse_snapshot_version_empty_base_fails:
  "stamp_shape digits_ex (ustr ''20240115'') (ustr ''083045'') (replicate 4301 (of_char CHR ''1''))
   \<and> valid_datetime (decode_timestamp digits_ex (ustr ''20240115'') (ustr ''083045''))
   \<and> parse_snapshot_version digits_ex
        (dash # ustr ''20240115'' @ period # ustr ''083045'' @ dash # replicate 4301 (of_char CHR ''1''))
       = Inl ValueError
   \<and> stamp_shape digits_ex (ustr ''2024'' @ 65296 # ustr ''115'') (ustr ''083045'') (ustr ''7'')
   \<and> valid_datetime (decode_timestamp digits_ex (ustr ''2024'' @ 65296 # ustr ''115'') (ustr ''083045''))
   \<and> parse_snapshot_version digits_ex
        (dash # (ustr ''2024'' @ 65296 # ustr ''115'') @ period # ustr ''083045'' @ dash # ustr ''7'')
       = Inr None"
proof -
  let ?long = "replicate 4301 (of_char CHR ''1'') :: ustring"
  let ?wide = "ustr ''2024'' @ 65296 # ustr ''115''"
  have s1: "stamp_shape digits_ex (ustr ''20240115'') (ustr ''083045'') ?long"
    using ex_stamp by (simp add: stamp_shape_def list_all_iff is_digit_def digits_ex_def)
  have p1: "parse_snapshot_version digits_ex
        (dash # ustr ''20240115'' @ period # ustr ''083045'' @ dash # ?long) = Inl ValueError"
    unfolding parse_snapshot_version_error [OF ascii_decimals_ex]
    using s1
    by (intro conjI exI [of _ "[]"] exI [of _ "ustr ''20240115''"] exI [of _ "ustr ''083045''"]
        exI [of _ ?long] exI [of _ "[]"])
       (simp_all add: int_max_str_digits_def)
  have s2: "stamp_shape digits_ex ?wide (ustr ''083045'') (ustr ''7'')"
    by (simp add: stamp_shape_def is_digit_def digits_ex_def ustr_def)
  have v2: "valid_datetime (decode_timestamp digits_ex ?wide (ustr ''083045''))"
    by (simp add: decode_timestamp_def digits_ex_def ustr_def valid_datetime_def days_in_month_def)
  have m2: "SNAPSHOT_PATTERN_match digits_ex
        (dash # ?wide @ period # ustr ''083045'' @ dash # ustr ''7'')
      = Some ([], ?wide @ period # ustr ''083045'', ustr ''7'')"
    unfolding SNAPSHOT_PATTERN_match_Some [OF ascii_decimals_ex]
    using s2 by (intro exI [of _ ?wide] exI [of _ "ustr ''083045''"] exI [of _ "[]"]) simp
  have "\<not> accepts digits_ex ?wide (ustr ''083045'')"
    by (simp add: accepts_def two_m_def in_range_def ustr_def)
  then have "strptime digits_ex (?wide @ period # ustr ''083045'') = Inl ValueError"
    using strptime_digits [OF ascii_decimals_ex, of ?wide "ustr ''083045''"] s2
    by (simp add: stamp_shape_def)
  then have p2: "parse_snapshot_version digits_ex
        (dash # ?wide @ period # ustr ''083045'' @ dash # ustr ''7'') = Inr None"
    unfolding parse_snapshot_version_cases [OF ascii_decimals_ex] m2
    by (simp add: ustr_def int_max_str_digits_def)
  show ?thesis
    using s1 ex_valid p1 s2 v2 p2 by simp
qed

subsection \<open>The retry loop\<close>




declare request_attempts.simps(2) [simp del]








subsection \<open>Requests with retries\<close>

text \<open>
  Claim C9: with \<open>max_retries = 0\<close> the loop body never runs, so \<open>make_api_request\<close> sends
  nothing and returns \<^verbatim>\<open>None\<close> for every method, URL and parameters; the callers then fail
  with an \<^verbatim>\<open>AttributeError\<close> on \<^verbatim>\<open>response.json()\<close> or \<^verbatim>\<open>response.status_code\<close>, not with a
  \<^verbatim>\<open>NexusAPIError\<close>, and the pass ends as \<open>failed\<close>.
\<close>

theorem make_api_request_zero_retries:
  assumes "max_retries cfg = 0"
  shows "make_api_request cfg remote (Req m u ps) tr = (Inr None, tr)
       \<and> get_all_components_paginated (Suc n) cfg remote tr = Some (Inl AttributeError, tr)
       \<and> delete_component cfg remote c tr = (Inl AttributeError, tr)
       \<and> cleanup_job U (Suc n) cfg remote tr = Some (failed, tr)"
proof -
  have m: "make_api_request cfg remote req tr = (Inr None, tr)" for req
    using assms by (simp add: make_api_request_def)
  have g: "get_all_components_paginated (Suc n) cfg remote tr = Some (Inl AttributeError, tr)"
    by (simp add: get_all_components_paginated_def m)
  have d: "delete_component cfg remote c tr = (Inl AttributeError, tr)"
    by (simp add: delete_component_def m)
  show ?thesis
    using m g d by (simp add: cleanup_job_def)
qed

text \<open>Claim C9 at the example configuration with \<open>max_retries\<close> set to 0.\<close>

theorem make_api_request_zero_retries_witness:
  "max_retries (cfg_ex\<lparr>max_retries := 0\<rparr>) = 0
   \<and> make_api_request (cfg_ex\<lparr>max_retries := 0\<rparr>) flaky (Req GET (ustr ''u'') []) [] = (Inr None, [])
   \<and> get_all_components_paginated (Suc 0) (cfg_ex\<lparr>max_retries := 0\<rparr>) flaky []
       = Some (Inl AttributeError, [])
   \<and> delete_component (cfg_ex\<lparr>max_retries := 0\<rparr>) flaky (comp_ex ''a'' ''1.0-SNAPSHOT'') []
       = (Inl AttributeError, [])
   \<and> cleanup_job digits_ex (Suc 0) (cfg_ex\<lparr>max_retries := 0\<rparr>) flaky [] = Some (failed, [])"
  using make_api_request_zero_retries
    [of "cfg_ex\<lparr>max_retries := 0\<rparr>" flaky GET "ustr ''u''" "[]" "[]" 0
        "comp_ex ''a'' ''1.0-SNAPSHOT''" digits_ex]
  by simp

text \<open>
  Claim C8 at \<open>max_retries = 0\<close>, on a remote that answers nothing but 404: no attempt
  is made, and the caller gets \<^verbatim>\<open>None\<close> where the claim promises a \<^verbatim>\<open>NexusAPIError\<close>.
\<close>

theorem make_api_request_no_typed_error:
  "make_api_request (cfg_ex\<lparr>max_retries := 0\<rparr>) not_found
     (Req DELETE (delete_url cfg_ex (comp_ex ''a'' ''1.0-20240101.010000-1'')) []) []
   = (Inr None, [])"
  by (simp add: make_api_request_def)

subsection \<open>Deleting one component\<close>

lemma delete_targets_append [simp]:
  "delete_targets (xs @ ys) = delete_targets xs @ delete_targets ys"
  by (simp add: delete_targets_def)

lemma delete_targets_Nil [simp]: "delete_targets [] = []"
  by (simp add: delete_targets_def)

lemma delete_targets_Cons:
  "delete_targets (ev # tr) =
     (case ev of Request r \<Rightarrow> if meth r = DELETE then [url r] else [] | _ \<Rightarrow> []) @ delete_targets tr"
  by (simp add: delete_targets_def)

lemma delete_targets_retries:
  "delete_targets (concat (replicate k [Request req, Sleep d])) =
     (if meth req = DELETE then replicate k (url req) else [])"
  by (induction k) (simp_all add: delete_targets_Cons)

lemma delete_targets_attempts:
  "delete_targets (attempt_trace cfg (Req DELETE u ps) tr k @ [Request (Req DELETE u ps)])
     = delete_targets tr @ replicate (Suc k) u"
  by (simp add: attempt_trace_def delete_targets_retries delete_targets_Cons replicate_append_same)







end
